theory Spec2Isabelle
  imports Main
begin

section \<open>JavaScript values used by check-quota.ts\<close>

text \<open>
  A JavaScript string is modelled by a HOL \<open>string\<close>; each \<open>char\<close> stands for the UTF-16
  code unit with the same code (0 to 255). A JavaScript \<open>number\<close> that the script obtains from
  \<open>parseInt\<close> is either an integer or \<open>NaN\<close>; integers are unbounded here (the script's values
  are exact below \<open>2 ^ 53\<close>).
\<close>

datatype number = Num int | NaN

text \<open>White space and line terminators of ECMAScript among the code units below 256: the
  characters \<open>String.prototype.trim\<close> removes, \<open>parseInt\<close> skips and \<open>\s\<close> matches.\<close>

definition is_space :: "char \<Rightarrow> bool" where
  "is_space c \<longleftrightarrow> c \<in> set [CHR 0x09, CHR 0x0A, CHR 0x0B, CHR 0x0C, CHR 0x0D, CHR 0x20, CHR 0xA0]"

text \<open>The class \<open>\d\<close> of a regular expression without the unicode flag.\<close>

definition is_digit :: "char \<Rightarrow> bool" where
  "is_digit c \<longleftrightarrow> c \<in> set ''0123456789''"

definition digit_val :: "char \<Rightarrow> nat" where
  "digit_val c = of_char c - 48"

definition digits_value :: "string \<Rightarrow> nat" where
  "digits_value ds = foldl (\<lambda>a c. 10 * a + digit_val c) 0 ds"

text \<open>\<open>String.prototype.trim\<close>.\<close>

definition trim :: "string \<Rightarrow> string" where
  "trim s = rev (dropWhile is_space (rev (dropWhile is_space s)))"

text \<open>\<open>s.split(sep)\<close> for a one-character separator: the empty string gives one empty piece.\<close>

fun split_acc :: "char \<Rightarrow> string \<Rightarrow> string \<Rightarrow> string list" where
  "split_acc sep acc [] = [rev acc]"
| "split_acc sep acc (c # cs) =
     (if c = sep then rev acc # split_acc sep [] cs else split_acc sep (c # acc) cs)"

definition split_on :: "char \<Rightarrow> string \<Rightarrow> string list" where
  "split_on sep s = split_acc sep [] s"

text \<open>\<open>parseInt(s, 10)\<close>: leading white space is skipped, one sign is read, then the longest
  run of decimal digits; no digit gives \<open>NaN\<close>.\<close>

definition parseInt10 :: "string \<Rightarrow> number" where
  "parseInt10 s =
     (let t = dropWhile is_space s;
          neg = (case t of [] \<Rightarrow> False | c # _ \<Rightarrow> c = CHR ''-'');
          u = (case t of [] \<Rightarrow> [] | c # r \<Rightarrow> if c = CHR ''-'' \<or> c = CHR ''+'' then r else t);
          ds = takeWhile is_digit u
      in if ds = [] then NaN
         else Num (if neg then - int (digits_value ds) else int (digits_value ds)))"

section \<open>Regular-expression search\<close>

text \<open>\<open>String.prototype.match\<close> with a regular expression that has no \<open>g\<close> flag tries the
  pattern at position 0, then 1, and so on up to the end of the string, and returns the first
  position's match. \<open>m\<close> is the pattern tried at the start of a string.\<close>

fun regex_search :: "(string \<Rightarrow> 'a option) \<Rightarrow> string \<Rightarrow> 'a option" where
  "regex_search m [] = m []"
| "regex_search m (c # cs) =
     (case m (c # cs) of Some r \<Rightarrow> Some r | None \<Rightarrow> regex_search m cs)"

text \<open>A literal at the start of a string: what follows it, if it is there.\<close>

fun after_prefix :: "string \<Rightarrow> string \<Rightarrow> string option" where
  "after_prefix [] s = Some s"
| "after_prefix (p # ps) [] = None"
| "after_prefix (p # ps) (c # cs) = (if p = c then after_prefix ps cs else None)"

text \<open>The first alternative that succeeds, in the order written.\<close>

fun first_some :: "('a \<Rightarrow> 'b option) \<Rightarrow> 'a list \<Rightarrow> 'b option" where
  "first_some f [] = None"
| "first_some f (a # as) = (case f a of Some r \<Rightarrow> Some r | None \<Rightarrow> first_some f as)"

section \<open>getListeningPorts: parsing the tool output (lines 177 to 188)\<close>

text \<open>The pattern \<^verbatim>\<open>/(?:127\.0\.0\.1|localhost|0\.0\.0\.0|\[::1\]|\*):(\d+)/\<close>: one of five
  address forms, a colon, and a greedy non-empty run of digits, which is capture group 1.\<close>

definition addr_forms :: "string list" where
  "addr_forms = [''127.0.0.1'', ''localhost'', ''0.0.0.0'', ''[::1]'', ''*'']"

definition port_digits_after :: "string \<Rightarrow> string \<Rightarrow> string option" where
  "port_digits_after a s =
     (case after_prefix (a @ '':'') s of
        None \<Rightarrow> None
      | Some r \<Rightarrow> (let ds = takeWhile is_digit r in if ds = [] then None else Some ds))"

definition port_regex_at :: "string \<Rightarrow> string option" where
  "port_regex_at s = first_some (\<lambda>a. port_digits_after a s) addr_forms"

definition port_regex_match :: "string \<Rightarrow> string option" where
  "port_regex_match line = regex_search port_regex_at line"

text \<open>The loop over the lines: \<open>match && match[1]\<close> holds when the pattern matched and the
  captured string is not empty; the port is pushed unless \<open>ports.includes(port)\<close>.\<close>

fun collect_ports :: "number list \<Rightarrow> string list \<Rightarrow> number list" where
  "collect_ports ports [] = ports"
| "collect_ports ports (line # lines) =
     (case port_regex_match line of
        None \<Rightarrow> collect_ports ports lines
      | Some m1 \<Rightarrow>
          if m1 \<noteq> [] then
            (let port = parseInt10 m1
             in collect_ports (if port \<in> set ports then ports else ports @ [port]) lines)
          else collect_ports ports lines)"

definition parse_ports :: "string \<Rightarrow> number list" where
  "parse_ports portStdout =
     (if portStdout \<noteq> [] then collect_ports [] (split_on (CHR 0x0A) portStdout) else [])"

text \<open>\<open>Array.from(new Set(xs))\<close>: the distinct values in the order of their first insertion.\<close>

fun set_add_all :: "'a list \<Rightarrow> 'a list \<Rightarrow> 'a list" where
  "set_add_all seen [] = seen"
| "set_add_all seen (x # xs) = set_add_all (if x \<in> set seen then seen else seen @ [x]) xs"

definition Array_from_Set :: "'a list \<Rightarrow> 'a list" where
  "Array_from_Set xs = set_add_all [] xs"

text \<open>\<open>new Map(entries)\<close> as an association list in insertion order: setting a key that is
  present replaces its value and keeps its position.\<close>

fun map_set :: "('k \<times> 'v) list \<Rightarrow> 'k \<Rightarrow> 'v \<Rightarrow> ('k \<times> 'v) list" where
  "map_set [] k v = [(k, v)]"
| "map_set ((k', v') # m) k v = (if k' = k then (k, v) # m else (k', v') # map_set m k v)"

definition new_Map :: "('k \<times> 'v) list \<Rightarrow> ('k \<times> 'v) list" where
  "new_Map entries = foldl (\<lambda>m (k, v). map_set m k v) [] entries"

definition Map_values :: "('k \<times> 'v) list \<Rightarrow> 'v list" where
  "Map_values m = map snd m"

text \<open>The strict equality \<open>===\<close> on numbers: \<open>NaN\<close> is not equal to itself.\<close>

definition strict_eq :: "number \<Rightarrow> number \<Rightarrow> bool" where
  "strict_eq a b \<longleftrightarrow> a = b \<and> a \<noteq> NaN"

text \<open>A number inside a template literal: decimal digits, a minus sign when negative.\<close>

function string_of_nat :: "nat \<Rightarrow> string" where
  "string_of_nat n =
     (if n < 10 then [char_of (48 + n)]
      else string_of_nat (n div 10) @ [char_of (48 + n mod 10)])"
  by pat_completeness auto
termination
  by (relation "measure (\<lambda>n. n)") auto

fun string_of_number :: "number \<Rightarrow> string" where
  "string_of_number NaN = ''NaN''"
| "string_of_number (Num i) =
     (if i < 0 then CHR ''-'' # string_of_nat (nat (- i)) else string_of_nat (nat i))"

section \<open>The environment\<close>

text \<open>\<open>process.platform\<close>: the script distinguishes \<open>darwin\<close>, \<open>win32\<close> and everything else.\<close>

datatype platform = Darwin | Win32 | Other

text \<open>\<open>execAsync(cmd)\<close> either rejects (the command could not run, exited with a non-zero
  status or overflowed the buffer) or resolves with the command's standard output.\<close>

datatype exec_result = ExecError string | ExecOk string

text \<open>What the request object of \<open>https.request\<close> delivers to the handlers of \<open>testPort\<close>,
  in order: the response callback with a status code, an \<open>error\<close> event, a \<open>timeout\<close> event.
  A request is described by these events; a call of \<open>https.request\<close> that throws before the
  handlers are registered is not described.\<close>

datatype req_event = Response nat | ReqError | ReqTimeout

record env =
  platform :: platform
  exec :: "string \<Rightarrow> exec_result"
  https_request :: "number \<Rightarrow> string \<Rightarrow> req_event list"

text \<open>The external operations a run performs, in the order each branch issues them (the
  interleaving of concurrent branches is not recorded).\<close>

datatype op = Exec string | Probe number string

datatype 'a promise = Fulfilled 'a | Rejected | Pending

text \<open>\<open>Promise.all\<close>: rejected as soon as one member is, pending while one is pending,
  otherwise fulfilled with the values in the order of the array.\<close>

fun fulfilled_values :: "'a promise list \<Rightarrow> 'a list" where
  "fulfilled_values [] = []"
| "fulfilled_values (Fulfilled v # ps) = v # fulfilled_values ps"
| "fulfilled_values (_ # ps) = fulfilled_values ps"

definition Promise_all :: "'a promise list \<Rightarrow> 'a list promise" where
  "Promise_all ps =
     (if Rejected \<in> set ps then Rejected
      else if Pending \<in> set ps then Pending
      else Fulfilled (fulfilled_values ps))"

section \<open>getListeningPorts: running the tools (lines 151 to 175)\<close>

record command =
  name :: string
  cmd :: string

definition dquote :: char where
  "dquote = CHR 0x22"

definition commands :: "platform \<Rightarrow> number \<Rightarrow> command list" where
  "commands pf p =
     (case pf of
        Darwin \<Rightarrow> [\<lparr>name = ''lsof'', cmd = ''lsof -Pan -p '' @ string_of_number p @ '' -i''\<rparr>]
      | Win32 \<Rightarrow>
          [\<lparr>name = ''netstat'',
            cmd = ''netstat -ano | findstr LISTENING | findstr '' @ string_of_number p\<rparr>]
      | Other \<Rightarrow>
          [\<lparr>name = ''ss'',
            cmd = ''ss -tlnp | grep '' @ [dquote] @ ''pid='' @ string_of_number p @ '','' @ [dquote]\<rparr>,
           \<lparr>name = ''netstat'', cmd = ''netstat -tulpn | grep '' @ string_of_number p\<rparr>,
           \<lparr>name = ''lsof'', cmd = ''lsof -Pan -p '' @ string_of_number p @ '' -i''\<rparr>])"

text \<open>The loop over the commands: the first command whose output is not blank gives
  \<open>portStdout\<close> and ends the loop; a rejected \<open>execAsync\<close> is caught and ignored. The second
  component lists the commands that were run.\<close>

fun run_commands :: "(string \<Rightarrow> exec_result) \<Rightarrow> command list \<Rightarrow> string \<times> op list" where
  "run_commands ex [] = ([], [])"
| "run_commands ex (c # cs) =
     (case ex (cmd c) of
        ExecOk stdout \<Rightarrow>
          if trim stdout \<noteq> [] then (stdout, [Exec (cmd c)])
          else (let (out, tr) = run_commands ex cs in (out, Exec (cmd c) # tr))
      | ExecError e \<Rightarrow> (let (out, tr) = run_commands ex cs in (out, Exec (cmd c) # tr)))"

definition getListeningPorts :: "env \<Rightarrow> number \<Rightarrow> number list \<times> op list" where
  "getListeningPorts e p =
     (let (portStdout, tr) = run_commands (exec e) (commands (platform e) p)
      in (parse_ports portStdout, tr))"

section \<open>testPort (lines 194 to 220)\<close>

text \<open>\<open>resolve(v)\<close> settles a promise that is pending and does nothing otherwise.\<close>

fun resolve_call :: "'a promise \<Rightarrow> 'a \<Rightarrow> 'a promise" where
  "resolve_call Pending v = Fulfilled v"
| "resolve_call p v = p"

text \<open>The three handlers registered on the request: the response callback resolves with
  \<open>res.statusCode === 200\<close>, the \<open>error\<close> and the \<open>timeout\<close> handlers resolve with
  \<open>false\<close>.\<close>

fun on_event :: "bool promise \<Rightarrow> req_event \<Rightarrow> bool promise" where
  "on_event p (Response statusCode) = resolve_call p (statusCode = 200)"
| "on_event p ReqError = resolve_call p False"
| "on_event p ReqTimeout = resolve_call p False"

text \<open>One call of \<open>testPort\<close> issues one request and hands its events to the handlers.\<close>

definition testPort :: "env \<Rightarrow> number \<Rightarrow> string \<Rightarrow> bool promise \<times> op list" where
  "testPort e p t = (foldl on_event Pending (https_request e p t), [Probe p t])"

section \<open>The process listing (lines 17 to 85)\<close>

definition processName :: "platform \<Rightarrow> string" where
  "processName pf =
     (case pf of
        Darwin \<Rightarrow> ''language_server_macos''
      | Win32 \<Rightarrow> ''language_server_windows_x64.exe''
      | Other \<Rightarrow> ''language_server_linux'')"

definition squote :: char where
  "squote = CHR 0x27"

definition psCommand :: "platform \<Rightarrow> string" where
  "psCommand pf =
     (if pf = Win32 then
        ''wmic process where '' @ [dquote] @ ''name='' @ [squote] @ processName pf @ [squote]
          @ [dquote] @ '' get commandline,processid /format:list''
      else
        ''ps -ww -eo pid,args | grep '' @ [dquote] @ processName pf @ [dquote]
          @ '' | grep -v grep'')"

subsection \<open>The credential pattern\<close>

text \<open>The pattern \<^verbatim>\<open>/--csrf_token[=\s]+([a-f0-9\-]+)/i\<close>. With the \<open>i\<close> flag two characters
  match when their canonical (upper-case) forms agree; among the characters of the pattern
  this identifies each ASCII letter with its capital and nothing else.\<close>

definition canon :: "char \<Rightarrow> char" where
  "canon c =
     (case map_of (zip ''abcdefghijklmnopqrstuvwxyz'' ''ABCDEFGHIJKLMNOPQRSTUVWXYZ'') c of
        Some u \<Rightarrow> u
      | None \<Rightarrow> c)"

fun after_prefix_ci :: "string \<Rightarrow> string \<Rightarrow> string option" where
  "after_prefix_ci [] s = Some s"
| "after_prefix_ci (p # ps) [] = None"
| "after_prefix_ci (p # ps) (c # cs) =
     (if canon p = canon c then after_prefix_ci ps cs else None)"

text \<open>The class \<open>[=\s]\<close>.\<close>

definition is_sep :: "char \<Rightarrow> bool" where
  "is_sep c \<longleftrightarrow> c = CHR ''='' \<or> is_space c"

text \<open>The class \<open>[a-f0-9\-]\<close> under the \<open>i\<close> flag.\<close>

definition is_token_char :: "char \<Rightarrow> bool" where
  "is_token_char c \<longleftrightarrow> canon c \<in> set (map canon ''abcdef0123456789-'')"

text \<open>The pattern tried at the start of a string. The two classes are disjoint, so the greedy
  run of separators is the only split that can succeed: giving a separator back leaves a
  separator where the token has to start.\<close>

definition csrf_regex_at :: "string \<Rightarrow> string option" where
  "csrf_regex_at s =
     (case after_prefix_ci ''--csrf_token'' s of
        None \<Rightarrow> None
      | Some r \<Rightarrow>
          (let seps = takeWhile is_sep r;
               tok = takeWhile is_token_char (dropWhile is_sep r)
           in if seps = [] \<or> tok = [] then None else Some tok))"

text \<open>\<open>s.match(...)\<close>: the value of capture group 1 at the leftmost match.\<close>

definition csrf_regex_match :: "string \<Rightarrow> string option" where
  "csrf_regex_match s = regex_search csrf_regex_at s"

record candidate =
  pid :: number
  csrfToken :: string

subsection \<open>Other platforms: one line per process (lines 64 to 76)\<close>

text \<open>\<open>s.split(/\s+/)\<close>: the pieces between maximal runs of white space.\<close>

function split_ws_acc :: "string \<Rightarrow> string \<Rightarrow> string list" where
  "split_ws_acc acc [] = [rev acc]"
| "split_ws_acc acc (c # cs) =
     (if is_space c then rev acc # split_ws_acc [] (dropWhile is_space cs)
      else split_ws_acc (c # acc) cs)"
  by pat_completeness auto
termination
  by (relation "measure (\<lambda>(acc, s). length s)")
     (auto simp: length_dropWhile_le less_Suc_eq_le)

definition split_ws :: "string \<Rightarrow> string list" where
  "split_ws s = split_ws_acc [] s"

text \<open>\<open>parseInt(parts[0], 10)\<close>; an absent element is \<open>undefined\<close>, which parses as \<open>NaN\<close>.\<close>

definition parse_first :: "string list \<Rightarrow> number" where
  "parse_first parts = (case parts of [] \<Rightarrow> NaN | p0 # _ \<Rightarrow> parseInt10 p0)"

fun unix_candidates :: "candidate list \<Rightarrow> string list \<Rightarrow> candidate list" where
  "unix_candidates candidates [] = candidates"
| "unix_candidates candidates (line # lines) =
     (let parts = split_ws (trim line);
          pidVal = parse_first parts;
          tokenMatch = csrf_regex_match line
      in case tokenMatch of
           Some m1 \<Rightarrow>
             if pidVal \<noteq> NaN
             then unix_candidates (candidates @ [\<lparr>pid = pidVal, csrfToken = m1\<rparr>]) lines
             else unix_candidates candidates lines
         | None \<Rightarrow> unix_candidates candidates lines)"

subsection \<open>Windows: \<open>CommandLine=\<close> and \<open>ProcessId=\<close> lines (lines 41 to 62)\<close>

text \<open>\<open>s.split('\r\n')\<close>.\<close>

fun split_crlf_acc :: "string \<Rightarrow> string \<Rightarrow> string list" where
  "split_crlf_acc acc [] = [rev acc]"
| "split_crlf_acc acc [c] = [rev (c # acc)]"
| "split_crlf_acc acc (c # d # cs) =
     (if c = CHR 0x0D \<and> d = CHR 0x0A then rev acc # split_crlf_acc [] cs
      else split_crlf_acc (c # acc) (d # cs))"

definition split_crlf :: "string \<Rightarrow> string list" where
  "split_crlf s = split_crlf_acc [] s"

definition startsWith :: "string \<Rightarrow> string \<Rightarrow> bool" where
  "startsWith line p \<longleftrightarrow> take (length p) line = p"

fun win_candidates :: "string \<Rightarrow> candidate list \<Rightarrow> string list \<Rightarrow> candidate list" where
  "win_candidates currentCmd candidates [] = candidates"
| "win_candidates currentCmd candidates (line # lines) =
     (if startsWith line ''CommandLine='' then win_candidates (drop 12 line) candidates lines
      else if startsWith line ''ProcessId='' then
        (let currentPid = drop 10 line
         in win_candidates []
              (if currentCmd \<noteq> [] \<and> currentPid \<noteq> [] then
                 (case csrf_regex_match currentCmd of
                    Some m1 \<Rightarrow> candidates @ [\<lparr>pid = parseInt10 currentPid, csrfToken = m1\<rparr>]
                  | None \<Rightarrow> candidates)
               else candidates)
              lines)
      else win_candidates currentCmd candidates lines)"

text \<open>Step 2 of \<open>main\<close>: the candidates of a listing that is not blank.\<close>

definition extract_candidates :: "platform \<Rightarrow> string \<Rightarrow> candidate list" where
  "extract_candidates pf psStdout =
     (if pf = Win32 then
        win_candidates [] [] (filter (\<lambda>l. trim l \<noteq> []) (split_crlf (trim psStdout)))
      else unix_candidates [] (split_on (CHR 0x0A) (trim psStdout)))"

text \<open>Line 84: \<open>Array.from(new Map(candidates.map(item => [item.pid, item])).values())\<close>.\<close>

definition uniqueCandidates :: "candidate list \<Rightarrow> candidate list" where
  "uniqueCandidates candidates = Map_values (new_Map (map (\<lambda>item. (pid item, item)) candidates))"

section \<open>main: from the process listing to the working port (lines 13 to 135)\<close>

text \<open>\<open>{ port, token }\<close> is the value of \<open>validResult\<close>; the elements of \<open>allPorts\<close> carry the
  process id as a third field (\<open>pid\<close> in the source).\<close>

record endpoint =
  port :: number
  token :: string

record port_candidate = endpoint +
  owner_pid :: number

text \<open>The errors thrown inside the \<open>try\<close> block of \<open>main\<close>, named by the stage that throws:
  a rejected \<open>execAsync\<close> of the listing command (line 32), a blank listing (line 34), no
  candidate with a token (line 80), no port for any candidate (line 109), no port that answers
  (line 132), and a rejected probe promise. Each is caught at line 145, reported, and the
  process exits with status 1.\<close>

datatype error =
    ExecFailed string
  | ProcessNotFound
  | NoCredentialFound
  | NoListeningPort
  | NoRespondingEndpoint
  | ProbeRejected

text \<open>\<open>Found\<close>: \<open>main\<close> reaches line 135 with this \<open>validResult\<close>. \<open>Unsettled\<close>: an awaited
  promise never settles.\<close>

datatype outcome = Found endpoint | Failed error | Unsettled

text \<open>Lines 91 to 102: the ports of every candidate, each with the candidate's token.\<close>

definition ports_of_candidate :: "env \<Rightarrow> candidate \<Rightarrow> port_candidate list \<times> op list" where
  "ports_of_candidate e cand =
     (let (ports, tr) = getListeningPorts e (pid cand)
      in (map (\<lambda>p. \<lparr>port = p, token = csrfToken cand, owner_pid = pid cand\<rparr>) ports, tr))"

definition discover_all :: "env \<Rightarrow> candidate list \<Rightarrow> port_candidate list \<times> op list" where
  "discover_all e cands =
     (let pidPortResults = map (ports_of_candidate e) cands
      in (concat (map fst pidPortResults), concat (map snd pidPortResults)))"

text \<open>Lines 117 to 126: the asynchronous function mapped over \<open>uniquePorts\<close>.\<close>

definition test_one ::
  "env \<Rightarrow> port_candidate list \<Rightarrow> number \<Rightarrow> endpoint option promise \<times> op list" where
  "test_one e allPorts p =
     (case List.find (\<lambda>wp. strict_eq (port wp) p) allPorts of
        None \<Rightarrow> (Fulfilled None, [])
      | Some matchingCandidate \<Rightarrow>
          (let (isWorking, tr) = testPort e p (token matchingCandidate)
           in (case isWorking of
                 Fulfilled b \<Rightarrow>
                   Fulfilled (if b then Some \<lparr>port = p, token = token matchingCandidate\<rparr> else None)
               | Rejected \<Rightarrow> Rejected
               | Pending \<Rightarrow> Pending,
               tr)))"

text \<open>Lines 113 to 135.\<close>

definition probe_all :: "env \<Rightarrow> port_candidate list \<Rightarrow> outcome \<times> op list" where
  "probe_all e allPorts =
     (let uniquePorts = Array_from_Set (map port allPorts);
          testPromises = map (test_one e allPorts) uniquePorts;
          tr = concat (map snd testPromises)
      in case Promise_all (map fst testPromises) of
           Pending \<Rightarrow> (Unsettled, tr)
         | Rejected \<Rightarrow> (Failed ProbeRejected, tr)
         | Fulfilled results \<Rightarrow>
             (case List.find (\<lambda>r. r \<noteq> None) results of
                Some (Some validResult) \<Rightarrow> (Found validResult, tr)
              | _ \<Rightarrow> (Failed NoRespondingEndpoint, tr)))"

definition main :: "env \<Rightarrow> outcome \<times> op list" where
  "main e =
     (case exec e (psCommand (platform e)) of
        ExecError msg \<Rightarrow> (Failed (ExecFailed msg), [Exec (psCommand (platform e))])
      | ExecOk psStdout \<Rightarrow>
          if trim psStdout = [] then (Failed ProcessNotFound, [Exec (psCommand (platform e))])
          else
            (let candidates = extract_candidates (platform e) psStdout
             in if candidates = [] then
                  (Failed NoCredentialFound, [Exec (psCommand (platform e))])
                else
                  (let (allPorts, tr2) = discover_all e (uniqueCandidates candidates)
                   in if allPorts = [] then
                        (Failed NoListeningPort, Exec (psCommand (platform e)) # tr2)
                      else
                        (let (res, tr4) = probe_all e allPorts
                         in (res, Exec (psCommand (platform e)) # tr2 @ tr4)))))"

subsection \<open>Reading a trace\<close>

text \<open>The probe requests sent to port \<open>p\<close> among the operations of a run.\<close>

definition is_probe_of :: "number \<Rightarrow> op \<Rightarrow> bool" where
  "is_probe_of p x = (case x of Probe q t \<Rightarrow> q = p | Exec c \<Rightarrow> False)"

subsection \<open>The selection rule of the specification\<close>


section \<open>Facts about the regular-expression search\<close>

lemma regex_search_SomeD:
  "regex_search m s = Some r \<Longrightarrow> \<exists>pre t. s = pre @ t \<and> m t = Some r"
proof (induction s)
  case Nil
  then show ?case by simp
next
  case (Cons c cs)
  show ?case
  proof (cases "m (c # cs)")
    case None
    with Cons.prems have "regex_search m cs = Some r" by simp
    then obtain pre t where "cs = pre @ t" "m t = Some r"
      using Cons.IH by blast
    then have "c # cs = (c # pre) @ t \<and> m t = Some r" by simp
    then show ?thesis by blast
  next
    case (Some a)
    with Cons.prems have "m (c # cs) = Some r" by simp
    then have "c # cs = [] @ (c # cs) \<and> m (c # cs) = Some r" by simp
    then show ?thesis by blast
  qed
qed

lemma regex_search_suffix:
  "m t \<noteq> None \<Longrightarrow> regex_search m (pre @ t) \<noteq> None"
proof (induction pre)
  case Nil
  then show ?case by (cases t) (auto split: option.splits)
next
  case (Cons c pre)
  then show ?case by (auto split: option.splits)
qed


lemma after_prefix_iff: "after_prefix p s = Some r \<longleftrightarrow> s = p @ r"
  by (induction p s rule: after_prefix.induct) auto

lemma first_some_SomeD: "first_some f xs = Some r \<Longrightarrow> \<exists>a \<in> set xs. f a = Some r"
  by (induction xs) (auto split: option.splits)

lemma first_some_not_None: "a \<in> set xs \<Longrightarrow> f a \<noteq> None \<Longrightarrow> first_some f xs \<noteq> None"
  by (induction xs) (auto split: option.splits)

lemma port_digits_after_SomeD:
  "port_digits_after a s = Some ds \<Longrightarrow>
     ds \<noteq> [] \<and> (\<forall>c \<in> set ds. is_digit c) \<and> (\<exists>rest. s = a @ '':'' @ ds @ rest)"
proof -
  assume h: "port_digits_after a s = Some ds"
  then obtain r where r: "after_prefix (a @ '':'') s = Some r"
    by (auto simp: port_digits_after_def split: option.splits)
  with h have ds: "ds = takeWhile is_digit r" "ds \<noteq> []"
    by (auto simp: port_digits_after_def Let_def split: if_splits)
  have "s = (a @ '':'') @ r" using r by (simp only: after_prefix_iff)
  then have "s = a @ '':'' @ ds @ dropWhile is_digit r" using ds by simp
  moreover have "\<forall>c \<in> set ds. is_digit c" using ds(1) by (auto dest: set_takeWhileD)
  ultimately show ?thesis using ds(2) by blast
qed

lemma port_digits_after_not_None:
  assumes "ds \<noteq> []" "\<forall>c \<in> set ds. is_digit c"
  shows "port_digits_after a (a @ '':'' @ ds @ rest) \<noteq> None"
proof -
  have "after_prefix (a @ '':'') (a @ '':'' @ ds @ rest) = Some (ds @ rest)"
    by (simp add: after_prefix_iff)
  moreover have "takeWhile is_digit (ds @ rest) \<noteq> []"
    using assms by (cases ds) auto
  ultimately show ?thesis by (simp add: port_digits_after_def Let_def)
qed

lemma port_regex_match_SomeD:
  assumes "port_regex_match line = Some ds"
  shows "ds \<noteq> [] \<and> (\<forall>c \<in> set ds. is_digit c) \<and>
         (\<exists>pre a rest. a \<in> set addr_forms \<and> line = pre @ a @ '':'' @ ds @ rest)"
proof -
  from assms obtain pre t where t: "line = pre @ t" "port_regex_at t = Some ds"
    unfolding port_regex_match_def by (blast dest: regex_search_SomeD)
  then obtain a where a: "a \<in> set addr_forms" "port_digits_after a t = Some ds"
    unfolding port_regex_at_def by (blast dest: first_some_SomeD)
  from port_digits_after_SomeD[OF a(2)] obtain rest where
    "ds \<noteq> []" "\<forall>c \<in> set ds. is_digit c" "t = a @ '':'' @ ds @ rest" by blast
  with t(1) a(1) show ?thesis by blast
qed

lemma port_regex_match_not_None:
  assumes "a \<in> set addr_forms" "ds \<noteq> []" "\<forall>c \<in> set ds. is_digit c"
  shows "port_regex_match (pre @ a @ '':'' @ ds @ rest) \<noteq> None"
proof -
  have "port_regex_at (a @ '':'' @ ds @ rest) \<noteq> None"
    unfolding port_regex_at_def
    using assms(1) port_digits_after_not_None[OF assms(2,3)]
    by (rule first_some_not_None)
  then show ?thesis
    unfolding port_regex_match_def by (rule regex_search_suffix)
qed

lemma is_digit_not_space: "is_digit c \<Longrightarrow> \<not> is_space c"
  by (auto simp: is_digit_def is_space_def)

lemma is_digit_not_sign: "is_digit c \<Longrightarrow> c \<noteq> CHR ''-'' \<and> c \<noteq> CHR ''+''"
  by (auto simp: is_digit_def)

lemma parseInt10_digits:
  assumes "ds \<noteq> []" "\<forall>c \<in> set ds. is_digit c"
  shows "parseInt10 ds = Num (int (digits_value ds))"
proof -
  obtain c r where ds: "ds = c # r" using assms(1) by (cases ds) auto
  have c: "is_digit c" using assms(2) ds by simp
  have 1: "dropWhile is_space ds = ds" using ds c by (simp add: is_digit_not_space)
  have 2: "takeWhile is_digit ds = ds" using assms(2) by (simp add: takeWhile_eq_all_conv)
  show ?thesis
    unfolding parseInt10_def 1 Let_def
    using ds is_digit_not_sign[OF c] 2 by simp
qed

lemma set_collect_ports:
  "set (collect_ports ports lines) =
     set ports \<union> {parseInt10 m1 | m1 line. line \<in> set lines \<and> port_regex_match line = Some m1 \<and> m1 \<noteq> []}"
proof (induction lines arbitrary: ports)
  case Nil
  then show ?case by simp
next
  case (Cons l ls)
  show ?case
  proof (cases "port_regex_match l")
    case None
    then show ?thesis using Cons.IH[of ports] by auto
  next
    case (Some m1)
    then show ?thesis
      using Cons.IH[of ports] Cons.IH[of "ports @ [parseInt10 m1]"]
      by (auto simp: Let_def)
  qed
qed

lemma distinct_collect_ports:
  "distinct ports \<Longrightarrow> distinct (collect_ports ports lines)"
  by (induction lines arbitrary: ports) (auto simp: Let_def split: option.splits)

lemma port_regex_match_Nil: "port_regex_match [] = None"
  by (simp add: port_regex_match_def port_regex_at_def addr_forms_def port_digits_after_def)


lemma parse_ports_member:
  assumes "p \<in> set (parse_ports text)"
  shows "\<exists>line ds. line \<in> set (split_on (CHR 0x0A) text) \<and> port_regex_match line = Some ds \<and>
           ds \<noteq> [] \<and> (\<forall>c \<in> set ds. is_digit c) \<and> p = Num (int (digits_value ds))"
proof -
  from assms obtain line m1 where
    l: "line \<in> set (split_on (CHR 0x0A) text)" "port_regex_match line = Some m1"
       "p = parseInt10 m1"
    by (auto simp: parse_ports_def set_collect_ports split: if_splits)
  from port_regex_match_SomeD[OF l(2)] have d: "m1 \<noteq> []" "\<forall>c \<in> set m1. is_digit c" by auto
  then have "p = Num (int (digits_value m1))" using l(3) by (simp add: parseInt10_digits)
  with l d show ?thesis by blast
qed



lemmas port_eval =
  parse_ports_def split_on_def port_regex_match_def port_regex_at_def addr_forms_def
  port_digits_after_def is_digit_def parseInt10_def is_space_def digits_value_def digit_val_def

section \<open>The port parser\<close>




text \<open>
  Claim C2, as the code has it. The parser looks at nothing but the address form: a line
  contributes a port exactly when it contains one of \<open>127.0.0.1\<close>, \<open>localhost\<close>, \<open>0.0.0.0\<close>,
  \<open>[::1]\<close>, \<open>*\<close> followed by a colon and at least one digit, whatever state the line reports;
  the result holds each port once. Two listening lines with \<open>127.0.0.1:4050\<close> and
  \<open>0.0.0.0:9090\<close> give 4050 and 9090.
\<close>

theorem parse_ports_every_address_line:
  "set (parse_ports text) =
     {parseInt10 m1 | m1 line.
        line \<in> set (split_on (CHR 0x0A) text) \<and> port_regex_match line = Some m1}
   \<and> distinct (parse_ports text)
   \<and> (port_regex_match line \<noteq> None \<longleftrightarrow>
        (\<exists>pre a ds rest. a \<in> set addr_forms \<and> ds \<noteq> [] \<and> (\<forall>c \<in> set ds. is_digit c) \<and>
           line = pre @ a @ '':'' @ ds @ rest))
   \<and> parse_ports (''LISTEN 127.0.0.1:4050 *:*'' @ [CHR 0x0A] @
                   ''LISTEN 0.0.0.0:9090 *:*'' @ [CHR 0x0A]) = [Num 4050, Num 9090]"
proof (intro conjI)
  show "set (parse_ports text) =
     {parseInt10 m1 | m1 line.
        line \<in> set (split_on (CHR 0x0A) text) \<and> port_regex_match line = Some m1}"
  proof (cases "text = []")
    case True
    then show ?thesis
      by (simp add: parse_ports_def split_on_def port_regex_match_Nil)
  next
    case False
    have h: "\<And>l m. port_regex_match l = Some m \<Longrightarrow> m \<noteq> []"
      by (blast dest: port_regex_match_SomeD)
    have "{parseInt10 m1 | m1 line. line \<in> set (split_on (CHR 0x0A) text) \<and>
             port_regex_match line = Some m1 \<and> m1 \<noteq> []} =
          {parseInt10 m1 | m1 line. line \<in> set (split_on (CHR 0x0A) text) \<and>
             port_regex_match line = Some m1}"
      using h by blast
    then show ?thesis
      using False by (simp add: parse_ports_def set_collect_ports)
  qed
  show "distinct (parse_ports text)"
    by (simp add: parse_ports_def distinct_collect_ports)
  show "port_regex_match line \<noteq> None \<longleftrightarrow>
        (\<exists>pre a ds rest. a \<in> set addr_forms \<and> ds \<noteq> [] \<and> (\<forall>c \<in> set ds. is_digit c) \<and>
           line = pre @ a @ '':'' @ ds @ rest)"
    using port_regex_match_SomeD[of line] port_regex_match_not_None by blast
  show "parse_ports (''LISTEN 127.0.0.1:4050 *:*'' @ [CHR 0x0A] @
                   ''LISTEN 0.0.0.0:9090 *:*'' @ [CHR 0x0A]) = [Num 4050, Num 9090]"
    by (simp add: port_eval)
qed

theorem parse_ports_every_address_line_witness:
  "port_regex_match ''x *:80 (ESTABLISHED)'' \<noteq> None
   \<and> distinct (parse_ports ''x *:80 (ESTABLISHED)'')"
proof -
  have "''*'' \<in> set addr_forms \<and> ''80'' \<noteq> [] \<and> (\<forall>c \<in> set ''80''. is_digit c) \<and>
        ''x *:80 (ESTABLISHED)'' = ''x '' @ ''*'' @ '':'' @ ''80'' @ '' (ESTABLISHED)''"
    by (simp add: addr_forms_def is_digit_def)
  then have "\<exists>pre a ds rest. a \<in> set addr_forms \<and> ds \<noteq> [] \<and> (\<forall>c \<in> set ds. is_digit c) \<and>
        ''x *:80 (ESTABLISHED)'' = pre @ a @ '':'' @ ds @ rest"
    by blast
  then show ?thesis
    using parse_ports_every_address_line[of "''x *:80 (ESTABLISHED)''" "''x *:80 (ESTABLISHED)''"]
    by blast
qed

text \<open>
  Claim C2 as stated fails: a line that reports an established connection, as \<open>lsof -i\<close>
  prints it, contributes its local port.
\<close>

theorem established_line_counterexample:
  "parse_ports ''TCP 127.0.0.1:4050->127.0.0.1:55555 (ESTABLISHED)'' = [Num 4050]"
  by (simp add: port_eval)

lemma run_commands_stop:
  assumes "\<forall>d \<in> set pre. \<forall>out'. ex (cmd d) = ExecOk out' \<longrightarrow> trim out' = []"
    and "ex (cmd c) = ExecOk out" and "trim out \<noteq> []"
  shows "run_commands ex (pre @ c # post) = (out, map (\<lambda>d. Exec (cmd d)) (pre @ [c]))"
  using assms
proof (induction pre)
  case Nil
  then show ?case by simp
next
  case (Cons a pre)
  then have ih: "run_commands ex (pre @ c # post) = (out, map (\<lambda>d. Exec (cmd d)) (pre @ [c]))"
    by simp
  show ?case
  proof (cases "ex (cmd a)")
    case (ExecError m)
    then show ?thesis using ih by simp
  next
    case (ExecOk out')
    then have "trim out' = []" using Cons.prems(1) by simp
    then show ?thesis using ExecOk ih by simp
  qed
qed

lemma run_commands_all_fail:
  assumes "\<forall>d \<in> set cs. \<forall>out'. ex (cmd d) = ExecOk out' \<longrightarrow> trim out' = []"
  shows "run_commands ex cs = ([], map (\<lambda>d. Exec (cmd d)) cs)"
  using assms
proof (induction cs)
  case Nil
  then show ?case by simp
next
  case (Cons a cs)
  then have ih: "run_commands ex cs = ([], map (\<lambda>d. Exec (cmd d)) cs)" by simp
  show ?case
  proof (cases "ex (cmd a)")
    case (ExecError m)
    then show ?thesis using ih by simp
  next
    case (ExecOk out')
    then have "trim out' = []" using Cons.prems(1) by simp
    then show ?thesis using ExecOk ih by simp
  qed
qed

lemma parse_ports_Nil [simp]: "parse_ports [] = []"
  by (simp add: parse_ports_def)

lemma getListeningPorts_eq:
  "getListeningPorts e q =
     (parse_ports (fst (run_commands (exec e) (commands (platform e) q))),
      snd (run_commands (exec e) (commands (platform e) q)))"
  by (simp add: getListeningPorts_def split: prod.splits)

section \<open>The tool loop of getListeningPorts\<close>

text \<open>
  Claim C5. The tools of a platform are tried in the fixed order of \<open>commands\<close> (\<open>ss\<close>,
  \<open>netstat\<close>, \<open>lsof\<close>; \<open>lsof\<close> alone on macOS; \<open>netstat\<close> alone on Windows). A tool whose
  invocation fails, or whose output is blank, is passed over; the first tool whose output is
  not blank (not empty once trimmed, the test of line 168) supplies the text that is parsed,
  and no later tool is run. When every tool fails or prints nothing the result is the empty
  list, and so it is when no line of the output matches; no error is raised.
\<close>

theorem tools_tried_in_priority_order:
  "map name (commands Other q) = [''ss'', ''netstat'', ''lsof'']
   \<and> map name (commands Darwin q) = [''lsof'']
   \<and> map name (commands Win32 q) = [''netstat'']
   \<and> (\<forall>pre c post out.
         commands (platform e) q = pre @ c # post \<and>
         (\<forall>d \<in> set pre. \<forall>out'. exec e (cmd d) = ExecOk out' \<longrightarrow> trim out' = []) \<and>
         exec e (cmd c) = ExecOk out \<and> trim out \<noteq> []
         \<longrightarrow> getListeningPorts e q = (parse_ports out, map (\<lambda>d. Exec (cmd d)) (pre @ [c])))
   \<and> ((\<forall>d \<in> set (commands (platform e) q). \<forall>out'. exec e (cmd d) = ExecOk out' \<longrightarrow> trim out' = [])
         \<longrightarrow> getListeningPorts e q = ([], map (\<lambda>d. Exec (cmd d)) (commands (platform e) q)))
   \<and> ((\<forall>line \<in> set (split_on (CHR 0x0A) out0). port_regex_match line = None)
         \<longrightarrow> parse_ports out0 = [])"
proof (intro conjI allI impI)
  show "map name (commands Other q) = [''ss'', ''netstat'', ''lsof'']"
    by (simp add: commands_def)
  show "map name (commands Darwin q) = [''lsof'']"
    by (simp add: commands_def)
  show "map name (commands Win32 q) = [''netstat'']"
    by (simp add: commands_def)
next
  fix pre c post out
  assume "commands (platform e) q = pre @ c # post \<and>
         (\<forall>d \<in> set pre. \<forall>out'. exec e (cmd d) = ExecOk out' \<longrightarrow> trim out' = []) \<and>
         exec e (cmd c) = ExecOk out \<and> trim out \<noteq> []"
  then have a: "commands (platform e) q = pre @ c # post"
    and b: "\<forall>d \<in> set pre. \<forall>out'. exec e (cmd d) = ExecOk out' \<longrightarrow> trim out' = []"
    and c: "exec e (cmd c) = ExecOk out" and d: "trim out \<noteq> []"
    by blast+
  show "getListeningPorts e q = (parse_ports out, map (\<lambda>d. Exec (cmd d)) (pre @ [c]))"
    by (simp only: getListeningPorts_eq a run_commands_stop[OF b c d] fst_conv snd_conv)
next
  assume "\<forall>d \<in> set (commands (platform e) q). \<forall>out'. exec e (cmd d) = ExecOk out' \<longrightarrow> trim out' = []"
  then have "run_commands (exec e) (commands (platform e) q) =
      ([], map (\<lambda>d. Exec (cmd d)) (commands (platform e) q))"
    by (rule run_commands_all_fail)
  then show "getListeningPorts e q = ([], map (\<lambda>d. Exec (cmd d)) (commands (platform e) q))"
    by (simp only: getListeningPorts_eq fst_conv snd_conv parse_ports_Nil)
next
  assume h: "\<forall>line \<in> set (split_on (CHR 0x0A) out0). port_regex_match line = None"
  show "parse_ports out0 = []"
  proof (cases "parse_ports out0")
    case Nil
    then show ?thesis .
  next
    case (Cons p ps)
    then have "p \<in> set (parse_ports out0)" by simp
    from parse_ports_member[OF this] h show ?thesis by auto
  qed
qed

theorem tools_tried_in_priority_order_witness:
  "getListeningPorts
     \<lparr>platform = Other,
      exec = (\<lambda>c. if take 2 c = ''ss'' then ExecError ''exit 1'' else ExecOk ''LISTEN 127.0.0.1:5''),
      https_request = (\<lambda>p t. [])\<rparr> (Num 7)
     = ([Num 5], map (\<lambda>d. Exec (cmd d)) (take 2 (commands Other (Num 7))))
   \<and> getListeningPorts
     \<lparr>platform = Other, exec = (\<lambda>c. if take 2 c = ''ss'' then ExecError ''exit 1'' else ExecOk '' ''),
      https_request = (\<lambda>p t. [])\<rparr> (Num 7)
     = ([], map (\<lambda>d. Exec (cmd d)) (commands Other (Num 7)))
   \<and> parse_ports ''LISTEN [::]:5'' = []"
proof -
  let ?ex1 = "\<lambda>c. if take 2 c = ''ss'' then ExecError ''exit 1'' else ExecOk ''LISTEN 127.0.0.1:5''"
  let ?ex2 = "\<lambda>c. if take 2 c = ''ss'' then ExecError ''exit 1'' else ExecOk '' ''"
  let ?e1 = "\<lparr>platform = Other, exec = ?ex1, https_request = (\<lambda>p t. [])\<rparr>"
  let ?e2 = "\<lparr>platform = Other, exec = ?ex2, https_request = (\<lambda>p t. [])\<rparr>"
  let ?cs = "commands Other (Num 7)"
  have c: "?cs = [?cs ! 0] @ (?cs ! 1) # [?cs ! 2]" by (simp add: commands_def)
  have t: "take 2 ?cs = [?cs ! 0] @ [?cs ! 1]" by (simp add: commands_def)
  have p: "parse_ports ''LISTEN 127.0.0.1:5'' = [Num 5]" by (simp add: port_eval)
  have h1: "commands (platform ?e1) (Num 7) = [?cs ! 0] @ (?cs ! 1) # [?cs ! 2] \<and>
         (\<forall>d \<in> set [?cs ! 0]. \<forall>out'. exec ?e1 (cmd d) = ExecOk out' \<longrightarrow> trim out' = []) \<and>
         exec ?e1 (cmd (?cs ! 1)) = ExecOk ''LISTEN 127.0.0.1:5'' \<and> trim ''LISTEN 127.0.0.1:5'' \<noteq> []"
    by (simp add: commands_def trim_def is_space_def)
  have h2: "\<forall>d \<in> set (commands (platform ?e2) (Num 7)). \<forall>out'. exec ?e2 (cmd d) = ExecOk out' \<longrightarrow> trim out' = []"
    by (simp add: commands_def trim_def is_space_def)
  have h3: "\<forall>line \<in> set (split_on (CHR 0x0A) ''LISTEN [::]:5''). port_regex_match line = None"
    by (simp add: port_eval)
  from tools_tried_in_priority_order[of "Num 7" ?e1 "''LISTEN [::]:5''"] h1 h3
  have r1: "getListeningPorts ?e1 (Num 7) = (parse_ports ''LISTEN 127.0.0.1:5'', map (\<lambda>d. Exec (cmd d)) ([?cs ! 0] @ [?cs ! 1]))"
    and r3: "parse_ports ''LISTEN [::]:5'' = []"
    by blast+
  from tools_tried_in_priority_order[of "Num 7" ?e2 "[]"] h2
  have r2: "getListeningPorts ?e2 (Num 7) = ([], map (\<lambda>d. Exec (cmd d)) (commands (platform ?e2) (Num 7)))"
    by blast
  show ?thesis using r1 r2 r3 p t by simp
qed

section \<open>The port prober\<close>

lemma foldl_on_event_Fulfilled: "foldl on_event (Fulfilled b) evs = Fulfilled b"
proof (induction evs)
  case Nil
  then show ?case by simp
next
  case (Cons ev evs)
  then show ?case by (cases ev) simp_all
qed

lemma on_event_Pending: "on_event Pending ev = Fulfilled (ev = Response 200)"
  by (cases ev) simp_all

lemma fst_testPort:
  "fst (testPort e p t) =
     (case https_request e p t of [] \<Rightarrow> Pending | ev # _ \<Rightarrow> Fulfilled (ev = Response 200))"
  by (cases "https_request e p t")
     (simp_all add: testPort_def on_event_Pending foldl_on_event_Fulfilled)

lemma snd_testPort: "snd (testPort e p t) = [Probe p t]"
  by (simp add: testPort_def)

text \<open>
  Claim C6. The verdict of \<open>testPort\<close> is that of the first event the request delivers:
  \<open>true\<close> exactly when it is the response callback with status 200; a response with any
  other status, an \<open>error\<close> event and a \<open>timeout\<close> event give \<open>false\<close>. One call issues
  one request and no more.
\<close>

theorem testPort_true_iff_status_200:
  "(fst (testPort e p t) = Fulfilled True \<longleftrightarrow> (\<exists>rest. https_request e p t = Response 200 # rest))
   \<and> (\<forall>status rest. https_request e p t = Response status # rest \<and> status \<noteq> 200
         \<longrightarrow> fst (testPort e p t) = Fulfilled False)
   \<and> (\<forall>rest. https_request e p t = ReqError # rest \<longrightarrow> fst (testPort e p t) = Fulfilled False)
   \<and> (\<forall>rest. https_request e p t = ReqTimeout # rest \<longrightarrow> fst (testPort e p t) = Fulfilled False)
   \<and> snd (testPort e p t) = [Probe p t]"
  by (auto simp: fst_testPort snd_testPort split: list.splits)

theorem testPort_true_iff_status_200_witness:
  "fst (testPort \<lparr>platform = Other, exec = (\<lambda>c. ExecError []),
         https_request = (\<lambda>p t. if p = Num 1 then [Response 200]
                                 else if p = Num 2 then [Response 404]
                                 else if p = Num 3 then [ReqError]
                                 else [ReqTimeout, ReqError])\<rparr> (Num 1) ''ab'') = Fulfilled True
   \<and> fst (testPort \<lparr>platform = Other, exec = (\<lambda>c. ExecError []),
         https_request = (\<lambda>p t. if p = Num 1 then [Response 200]
                                 else if p = Num 2 then [Response 404]
                                 else if p = Num 3 then [ReqError]
                                 else [ReqTimeout, ReqError])\<rparr> (Num 2) ''ab'') = Fulfilled False
   \<and> fst (testPort \<lparr>platform = Other, exec = (\<lambda>c. ExecError []),
         https_request = (\<lambda>p t. if p = Num 1 then [Response 200]
                                 else if p = Num 2 then [Response 404]
                                 else if p = Num 3 then [ReqError]
                                 else [ReqTimeout, ReqError])\<rparr> (Num 3) ''ab'') = Fulfilled False
   \<and> fst (testPort \<lparr>platform = Other, exec = (\<lambda>c. ExecError []),
         https_request = (\<lambda>p t. if p = Num 1 then [Response 200]
                                 else if p = Num 2 then [Response 404]
                                 else if p = Num 3 then [ReqError]
                                 else [ReqTimeout, ReqError])\<rparr> (Num 4) ''ab'') = Fulfilled False"
proof -
  let ?e = "\<lparr>platform = Other, exec = (\<lambda>c. ExecError []),
         https_request = (\<lambda>p t. if p = Num 1 then [Response 200]
                                 else if p = Num 2 then [Response 404]
                                 else if p = Num 3 then [ReqError]
                                 else [ReqTimeout, ReqError])\<rparr>"
  have 1: "\<exists>rest. https_request ?e (Num 1) ''ab'' = Response 200 # rest" by simp
  have 2: "https_request ?e (Num 2) ''ab'' = Response 404 # [] \<and> (404::nat) \<noteq> 200" by simp
  have 3: "https_request ?e (Num 3) ''ab'' = ReqError # []" by simp
  have 4: "https_request ?e (Num 4) ''ab'' = ReqTimeout # [ReqError]" by simp
  show ?thesis
    using testPort_true_iff_status_200[of ?e "Num 1" "''ab''"] 1
      testPort_true_iff_status_200[of ?e "Num 2" "''ab''"] 2
      testPort_true_iff_status_200[of ?e "Num 3" "''ab''"] 3
      testPort_true_iff_status_200[of ?e "Num 4" "''ab''"] 4
    by blast
qed









section \<open>Deduplication of ports and the probing stage\<close>

lemma set_set_add_all: "set (set_add_all seen xs) = set seen \<union> set xs"
  by (induction xs arbitrary: seen) auto

lemma distinct_set_add_all: "distinct seen \<Longrightarrow> distinct (set_add_all seen xs)"
  by (induction xs arbitrary: seen) auto

lemma set_add_all_first_occurrences:
  "set_add_all seen xs = seen @ rev (remdups (rev (filter (\<lambda>x. x \<notin> set seen) xs)))"
proof (induction xs arbitrary: seen)
  case Nil
  then show ?case by simp
next
  case (Cons x xs)
  show ?case
  proof (cases "x \<in> set seen")
    case True
    then show ?thesis using Cons.IH[of seen] by simp
  next
    case False
    have f: "filter (\<lambda>y. y \<notin> set (seen @ [x])) xs =
             filter (\<lambda>y. y \<noteq> x) (filter (\<lambda>y. y \<notin> set seen) xs)" for xs
      by (induction xs) auto
    have r0: "remdups (zs @ [x]) = remdups (filter (\<lambda>y. y \<noteq> x) zs) @ [x]" for zs
      by (induction zs) auto
    have r: "remdups (rev ys @ [x]) = remdups (rev (filter (\<lambda>y. y \<noteq> x) ys)) @ [x]" for ys
      by (simp add: r0 rev_filter)
    have "set_add_all seen (x # xs) = set_add_all (seen @ [x]) xs" using False by simp
    also have "\<dots> = (seen @ [x]) @ rev (remdups (rev (filter (\<lambda>y. y \<notin> set (seen @ [x])) xs)))"
      by (rule Cons.IH)
    also have "\<dots> = seen @ rev (remdups (rev (filter (\<lambda>y. y \<notin> set seen) (x # xs))))"
      using False by (simp only: f) (simp add: r)
    finally show ?thesis .
  qed
qed

lemma Array_from_Set_first_occurrences: "Array_from_Set xs = rev (remdups (rev xs))"
  by (simp add: Array_from_Set_def set_add_all_first_occurrences)

lemma distinct_Array_from_Set: "distinct (Array_from_Set xs)"
  by (simp add: Array_from_Set_def distinct_set_add_all)

lemma set_Array_from_Set: "set (Array_from_Set xs) = set xs"
  by (simp add: Array_from_Set_def set_set_add_all)

lemma find_first:
  "\<forall>x \<in> set pre. \<not> P x \<Longrightarrow> P c \<Longrightarrow> List.find P (pre @ c # post) = Some c"
  by (induction pre) auto


lemma snd_test_one:
  "snd (test_one e allPorts p) =
     (case List.find (\<lambda>wp. strict_eq (port wp) p) allPorts of
        None \<Rightarrow> []
      | Some mc \<Rightarrow> [Probe p (token mc)])"
proof (cases "List.find (\<lambda>wp. strict_eq (port wp) p) allPorts")
  case None
  then show ?thesis by (simp add: test_one_def)
next
  case (Some mc)
  obtain r tr where r: "testPort e p (token mc) = (r, tr)" by (cases "testPort e p (token mc)")
  then have "tr = snd (testPort e p (token mc))" by simp
  then have "tr = [Probe p (token mc)]" by (simp only: snd_testPort)
  then show ?thesis using Some r by (simp add: test_one_def)
qed

lemma snd_probe_all:
  "snd (probe_all e allPorts) =
     concat (map (\<lambda>p. snd (test_one e allPorts p)) (Array_from_Set (map port allPorts)))"
  by (simp add: probe_all_def Let_def comp_def split: promise.splits option.splits)

lemma filter_concat_single:
  assumes "distinct xs" "x \<in> set xs" "\<forall>y \<in> set xs. y \<noteq> x \<longrightarrow> filter P (f y) = []"
  shows "filter P (concat (map f xs)) = filter P (f x)"
  using assms
proof (induction xs)
  case Nil
  then show ?case by simp
next
  case (Cons a xs)
  show ?case
  proof (cases "a = x")
    case True
    then have "x \<notin> set xs" using Cons.prems(1) by simp
    then have "\<forall>y \<in> set xs. filter P (f y) = []" using Cons.prems(3) by auto
    then have "filter P (concat (map f xs)) = []" by (induction xs) auto
    then show ?thesis using True by simp
  next
    case False
    then have "filter P (f a) = []" using Cons.prems(3) by simp
    moreover have "filter P (concat (map f xs)) = filter P (f x)"
      using Cons False by auto
    ultimately show ?thesis by simp
  qed
qed

text \<open>
  Claim C9. When the flattened candidate list \<open>allPorts\<close> reports a port several times, the
  deduplicated list \<open>uniquePorts\<close> holds it once, one probe is sent to it, and that probe
  carries the token of the first candidate of \<open>allPorts\<close> with that port.
\<close>

theorem probe_token_of_first_candidate:
  assumes "allPorts = pre @ c # post"
    and "port c \<notin> port ` set pre"
    and "port c \<noteq> NaN"
  shows "count_list (Array_from_Set (map port allPorts)) (port c) = 1
         \<and> filter (is_probe_of (port c)) (snd (probe_all e allPorts)) = [Probe (port c) (token c)]"
proof
  let ?ups = "Array_from_Set (map port allPorts)"
  have mem: "port c \<in> set ?ups" using assms(1) by (simp add: set_Array_from_Set)
  have cnt: "distinct xs \<Longrightarrow> x \<in> set xs \<Longrightarrow> count_list xs x = 1" for xs :: "number list" and x
    by (induction xs) auto
  show "count_list ?ups (port c) = 1"
    using distinct_Array_from_Set mem by (rule cnt)
  have fnd: "List.find (\<lambda>wp. strict_eq (port wp) (port c)) allPorts = Some c"
    unfolding assms(1)
  proof (rule find_first)
    show "\<forall>x \<in> set pre. \<not> strict_eq (port x) (port c)"
    proof
      fix x assume x: "x \<in> set pre"
      show "\<not> strict_eq (port x) (port c)"
      proof
        assume "strict_eq (port x) (port c)"
        then have "port c = port x" by (simp add: strict_eq_def)
        then have "port c \<in> port ` set pre" using x by (rule image_eqI)
        with assms(2) show False by contradiction
      qed
    qed
    show "strict_eq (port c) (port c)" using assms(3) by (simp add: strict_eq_def)
  qed
  have other: "\<forall>y \<in> set ?ups. y \<noteq> port c \<longrightarrow>
      filter (is_probe_of (port c)) (snd (test_one e allPorts y)) = []"
    by (auto simp: snd_test_one is_probe_of_def split: option.splits)
  have "filter (is_probe_of (port c)) (snd (probe_all e allPorts)) =
        filter (is_probe_of (port c)) (snd (test_one e allPorts (port c)))"
    unfolding snd_probe_all
    using distinct_Array_from_Set mem other by (rule filter_concat_single)
  also have "\<dots> = [Probe (port c) (token c)]"
    by (simp add: snd_test_one fnd is_probe_of_def)
  finally show "filter (is_probe_of (port c)) (snd (probe_all e allPorts)) =
      [Probe (port c) (token c)]" .
qed

theorem probe_token_of_first_candidate_witness:
  "count_list (Array_from_Set (map port
       [\<lparr>port = Num 5, token = ''aa'', owner_pid = Num 1\<rparr>,
        \<lparr>port = Num 6, token = ''bb'', owner_pid = Num 2\<rparr>,
        \<lparr>port = Num 6, token = ''cc'', owner_pid = Num 3\<rparr>])) (Num 6) = 1
   \<and> filter (is_probe_of (Num 6)) (snd (probe_all
       \<lparr>platform = Other, exec = (\<lambda>c. ExecError []), https_request = (\<lambda>p t. [ReqError])\<rparr>
       [\<lparr>port = Num 5, token = ''aa'', owner_pid = Num 1\<rparr>,
        \<lparr>port = Num 6, token = ''bb'', owner_pid = Num 2\<rparr>,
        \<lparr>port = Num 6, token = ''cc'', owner_pid = Num 3\<rparr>])) = [Probe (Num 6) ''bb'']"
proof -
  let ?c = "\<lparr>port = Num 6, token = ''bb'', owner_pid = Num 2\<rparr>"
  let ?pre = "[\<lparr>port = Num 5, token = ''aa'', owner_pid = Num 1\<rparr>]"
  let ?post = "[\<lparr>port = Num 6, token = ''cc'', owner_pid = Num 3\<rparr>]"
  have 1: "?pre @ ?c # ?post = ?pre @ ?c # ?post" by simp
  have 2: "port ?c \<notin> port ` set ?pre" by simp
  have 3: "port ?c \<noteq> NaN" by simp
  from probe_token_of_first_candidate[OF 1 2 3] show ?thesis by simp
qed

section \<open>Which port wins\<close>







lemmas probe_eval =
  probe_all_def test_one_def testPort_def Array_from_Set_def strict_eq_def Promise_all_def Let_def



section \<open>Deduplication of the candidates\<close>

lemma map_fst_map_set:
  "map fst (map_set m k v) = (if k \<in> set (map fst m) then map fst m else map fst m @ [k])"
  by (induction m k v rule: map_set.induct) auto

lemma set_map_set_subset: "set (map_set m k v) \<subseteq> insert (k, v) (set m)"
  by (induction m k v rule: map_set.induct) auto

lemma map_set_mem: "(k, v) \<in> set (map_set m k v)"
  by (induction m k v rule: map_set.induct) auto

lemma map_set_other: "(k', v') \<in> set m \<Longrightarrow> k' \<noteq> k \<Longrightarrow> (k', v') \<in> set (map_set m k v)"
  by (induction m k v rule: map_set.induct) auto

lemma foldl_map_set_keys:
  "map fst (foldl (\<lambda>m (k, v). map_set m k v) m es) = set_add_all (map fst m) (map fst es)"
proof (induction es arbitrary: m)
  case Nil
  then show ?case by simp
next
  case (Cons a es)
  obtain k v where a: "a = (k, v)" by (cases a)
  show ?case
    unfolding a using Cons.IH[of "map_set m k v"] by (simp add: map_fst_map_set)
qed

lemma foldl_map_set_subset:
  "set (foldl (\<lambda>m (k, v). map_set m k v) m es) \<subseteq> set m \<union> set es"
proof (induction es arbitrary: m)
  case Nil
  then show ?case by simp
next
  case (Cons a es)
  obtain k v where a: "a = (k, v)" by (cases a)
  have "set (foldl (\<lambda>m (k, v). map_set m k v) (map_set m k v) es) \<subseteq> set (map_set m k v) \<union> set es"
    by (rule Cons.IH)
  then show ?case
    unfolding a using set_map_set_subset[of m k v] by auto
qed

lemma foldl_map_set_keeps:
  "(k, v) \<in> set m \<Longrightarrow> k \<notin> fst ` set es \<Longrightarrow> (k, v) \<in> set (foldl (\<lambda>m (k, v). map_set m k v) m es)"
proof (induction es arbitrary: m)
  case Nil
  then show ?case by simp
next
  case (Cons a es)
  obtain k' v' where a: "a = (k', v')" by (cases a)
  have ne: "k \<noteq> k'" using Cons.prems(2) a by auto
  have "(k, v) \<in> set (map_set m k' v')" using Cons.prems(1) ne by (rule map_set_other)
  moreover have "k \<notin> fst ` set es" using Cons.prems(2) by auto
  ultimately show ?case unfolding a using Cons.IH by simp
qed

lemma new_Map_last_wins:
  "k \<notin> fst ` set post \<Longrightarrow> (k, v) \<in> set (new_Map (pre @ (k, v) # post))"
  by (simp add: new_Map_def foldl_map_set_keeps map_set_mem)

lemma new_Map_keys: "map fst (new_Map es) = Array_from_Set (map fst es)"
  by (simp add: new_Map_def Array_from_Set_def foldl_map_set_keys)

lemma new_Map_subset: "set (new_Map es) \<subseteq> set es"
  using foldl_map_set_subset[of "[]" es] by (simp add: new_Map_def)

lemma map_pid_uniqueCandidates:
  "map pid (uniqueCandidates cs) = Array_from_Set (map pid cs)"
proof -
  let ?es = "map (\<lambda>item. (pid item, item)) cs"
  have "\<forall>x \<in> set (new_Map ?es). fst x = pid (snd x)"
    using new_Map_subset[of ?es] by auto
  then have "map (\<lambda>x. pid (snd x)) (new_Map ?es) = map fst (new_Map ?es)"
    by (simp add: map_eq_conv)
  then have "map pid (uniqueCandidates cs) = map fst (new_Map ?es)"
    by (simp add: uniqueCandidates_def Map_values_def comp_def)
  also have "\<dots> = Array_from_Set (map pid cs)"
    by (simp add: new_Map_keys comp_def)
  finally show ?thesis .
qed

lemma set_uniqueCandidates_subset: "set (uniqueCandidates cs) \<subseteq> set cs"
proof -
  let ?es = "map (\<lambda>item. (pid item, item)) cs"
  have "snd ` set (new_Map ?es) \<subseteq> snd ` set ?es"
    using new_Map_subset[of ?es] by (rule image_mono)
  then show ?thesis
    by (simp add: uniqueCandidates_def Map_values_def image_image)
qed

lemma uniqueCandidates_last_wins:
  assumes "pid c \<notin> pid ` set post"
  shows "c \<in> set (uniqueCandidates (pre @ c # post))"
proof -
  let ?f = "\<lambda>item. (pid item, item)"
  have "pid c \<notin> fst ` set (map ?f post)" using assms by (simp add: image_image)
  then have "(pid c, c) \<in> set (new_Map (map ?f pre @ (pid c, c) # map ?f post))"
    by (rule new_Map_last_wins)
  then have "snd (pid c, c) \<in> snd ` set (new_Map (map ?f (pre @ c # post)))"
    by (intro imageI) simp
  then show ?thesis by (simp add: uniqueCandidates_def Map_values_def)
qed

lemma length_filter_distinct_key:
  "distinct (map f xs) \<Longrightarrow> length (filter (\<lambda>x. f x = k) xs) = (if k \<in> f ` set xs then 1 else 0)"
  by (induction xs) auto

lemmas cand_eval =
  extract_candidates_def trim_def split_on_def split_ws_def parse_first_def parseInt10_def
  csrf_regex_match_def csrf_regex_at_def canon_def is_sep_def is_token_char_def is_space_def
  is_digit_def digits_value_def digit_val_def Let_def

text \<open>
  Claim C8. Whatever the listing, the deduplicated candidates hold one entry for each process
  id that has a candidate and none for any other; every entry is one of the extracted
  candidates, and of several candidates with one process id the last one is kept.
\<close>

theorem one_candidate_per_pid:
  "length (filter (\<lambda>c. pid c = p) (uniqueCandidates (extract_candidates pf psStdout))) =
     (if p \<in> pid ` set (extract_candidates pf psStdout) then 1 else 0)
   \<and> set (uniqueCandidates (extract_candidates pf psStdout)) \<subseteq> set (extract_candidates pf psStdout)
   \<and> (\<forall>pre c post. extract_candidates pf psStdout = pre @ c # post \<and> pid c \<notin> pid ` set post
         \<longrightarrow> c \<in> set (uniqueCandidates (extract_candidates pf psStdout)))"
proof (intro conjI allI impI)
  let ?cs = "extract_candidates pf psStdout"
  have d: "distinct (map pid (uniqueCandidates ?cs))"
    by (simp add: map_pid_uniqueCandidates distinct_Array_from_Set)
  have "pid ` set (uniqueCandidates ?cs) = pid ` set ?cs"
    using arg_cong[OF map_pid_uniqueCandidates[of ?cs], of set]
    by (simp add: set_Array_from_Set)
  then show "length (filter (\<lambda>c. pid c = p) (uniqueCandidates ?cs)) =
     (if p \<in> pid ` set ?cs then 1 else 0)"
    using length_filter_distinct_key[OF d, of p] by simp
  show "set (uniqueCandidates ?cs) \<subseteq> set ?cs" by (rule set_uniqueCandidates_subset)
next
  fix pre c post
  assume "extract_candidates pf psStdout = pre @ c # post \<and> pid c \<notin> pid ` set post"
  then show "c \<in> set (uniqueCandidates (extract_candidates pf psStdout))"
    using uniqueCandidates_last_wins[of c post pre] by simp
qed

theorem one_candidate_per_pid_witness:
  "extract_candidates Other
      (''12 --csrf_token=aa'' @ [CHR 0x0A] @ ''13 --csrf_token=bb'' @ [CHR 0x0A] @
       ''12 --csrf_token=cc'' @ [CHR 0x0A])
     = [\<lparr>pid = Num 12, csrfToken = ''aa''\<rparr>, \<lparr>pid = Num 13, csrfToken = ''bb''\<rparr>,
        \<lparr>pid = Num 12, csrfToken = ''cc''\<rparr>]
   \<and> length (filter (\<lambda>c. pid c = Num 12) (uniqueCandidates (extract_candidates Other
      (''12 --csrf_token=aa'' @ [CHR 0x0A] @ ''13 --csrf_token=bb'' @ [CHR 0x0A] @
       ''12 --csrf_token=cc'' @ [CHR 0x0A])))) = 1
   \<and> \<lparr>pid = Num 12, csrfToken = ''cc''\<rparr> \<in> set (uniqueCandidates (extract_candidates Other
      (''12 --csrf_token=aa'' @ [CHR 0x0A] @ ''13 --csrf_token=bb'' @ [CHR 0x0A] @
       ''12 --csrf_token=cc'' @ [CHR 0x0A])))"
proof -
  let ?T = "''12 --csrf_token=aa'' @ [CHR 0x0A] @ ''13 --csrf_token=bb'' @ [CHR 0x0A] @
       ''12 --csrf_token=cc'' @ [CHR 0x0A]"
  let ?c3 = "\<lparr>pid = Num 12, csrfToken = ''cc''\<rparr>"
  have ec: "extract_candidates Other ?T =
      [\<lparr>pid = Num 12, csrfToken = ''aa''\<rparr>, \<lparr>pid = Num 13, csrfToken = ''bb''\<rparr>, ?c3]"
    by (simp add: cand_eval)
  have h: "extract_candidates Other ?T =
      [\<lparr>pid = Num 12, csrfToken = ''aa''\<rparr>, \<lparr>pid = Num 13, csrfToken = ''bb''\<rparr>] @ ?c3 # []
      \<and> pid ?c3 \<notin> pid ` set []"
    using ec by simp
  have m: "Num 12 \<in> pid ` set (extract_candidates Other ?T)"
    unfolding ec by simp
  from one_candidate_per_pid[of "Num 12" Other ?T] h m ec show ?thesis
    by (simp only: if_True) blast
qed

section \<open>The first stage of main\<close>




section \<open>Facts about the credential pattern\<close>
























section \<open>The whole pipeline on the specification's scenario\<close>

lemma discover_all_single:
  "discover_all e [cand] =
     (map (\<lambda>p. \<lparr>port = p, token = csrfToken cand, owner_pid = pid cand\<rparr>)
        (fst (getListeningPorts e (pid cand))),
      snd (getListeningPorts e (pid cand)))"
  by (simp add: discover_all_def ports_of_candidate_def split: prod.splits)

lemma main_end_to_end_example:
  "main \<lparr>platform = Other,
         exec = (\<lambda>c. if take 2 c = ''ps'' then ExecOk ''77 ls --csrf_token abcd-1234-ef00''
                     else ExecOk ''127.0.0.1:42100 LISTEN''),
         https_request = (\<lambda>p t. if p = Num 42100 \<and> t = ''abcd-1234-ef00'' then [Response 200]
                                 else [ReqError])\<rparr>
   = (Found \<lparr>port = Num 42100, token = ''abcd-1234-ef00''\<rparr>,
      [Exec (psCommand Other), Exec (''ss -tlnp | grep '' @ [dquote] @ ''pid=77,'' @ [dquote]),
       Probe (Num 42100) ''abcd-1234-ef00''])"
proof -
  let ?ex = "\<lambda>c. if take 2 c = ''ps'' then ExecOk ''77 ls --csrf_token abcd-1234-ef00''
                     else ExecOk ''127.0.0.1:42100 LISTEN''"
  let ?e = "\<lparr>platform = Other, exec = ?ex,
         https_request = (\<lambda>p t. if p = Num 42100 \<and> t = ''abcd-1234-ef00'' then [Response 200]
                                 else [ReqError])\<rparr>"
  let ?cand = "\<lparr>pid = Num 77, csrfToken = ''abcd-1234-ef00''\<rparr>"
  let ?pc = "\<lparr>port = Num 42100, token = ''abcd-1234-ef00'', owner_pid = Num 77\<rparr>"
  have ps: "exec ?e (psCommand (platform ?e)) = ExecOk ''77 ls --csrf_token abcd-1234-ef00''"
    by (simp add: psCommand_def)
  have tr: "trim ''77 ls --csrf_token abcd-1234-ef00'' \<noteq> []"
    by (simp add: trim_def is_space_def)
  have ec: "extract_candidates Other ''77 ls --csrf_token abcd-1234-ef00'' = [?cand]"
    by (simp add: cand_eval)
  have uc: "uniqueCandidates [?cand] = [?cand]"
    by (simp add: uniqueCandidates_def new_Map_def Map_values_def)
  have s77: "string_of_number (Num 77) = ''77''" by code_simp
  have rc: "run_commands ?ex (commands Other (Num 77)) =
      (''127.0.0.1:42100 LISTEN'', [Exec (''ss -tlnp | grep '' @ [dquote] @ ''pid=77,'' @ [dquote])])"
    by (simp add: commands_def s77 trim_def is_space_def del: string_of_number.simps)
  have pp: "parse_ports ''127.0.0.1:42100 LISTEN'' = [Num 42100]"
    by (simp add: port_eval)
  have gl: "getListeningPorts ?e (Num 77) =
      ([Num 42100], [Exec (''ss -tlnp | grep '' @ [dquote] @ ''pid=77,'' @ [dquote])])"
    by (simp add: getListeningPorts_eq rc pp)
  have da: "discover_all ?e [?cand] = ([?pc], [Exec (''ss -tlnp | grep '' @ [dquote] @ ''pid=77,'' @ [dquote])])"
    by (simp add: discover_all_single gl)
  have pa: "probe_all ?e [?pc] =
      (Found \<lparr>port = Num 42100, token = ''abcd-1234-ef00''\<rparr>, [Probe (Num 42100) ''abcd-1234-ef00''])"
    by (simp add: probe_eval)
  show ?thesis
    unfolding main_def ps by (simp add: tr ec uc da pa)
qed

end
